theory Spec2Isabelle
  imports Complex_Main "HOL-Library.AList" "HOL-Library.Sublist" "HOL-Library.Multiset"
    "HOL-Library.List_Lexorder" "HOL-Library.Char_ord"
begin

section \<open>Data model\<close>

text \<open>
  Modelled from the spec: the declaration of \<open>Photo\<close> (module \<open>@/types\<close>) is not among
  the sources; section 3 of the specification gives its fields. Identifiers are the
  integers the remote source assigns, so the JavaScript number of the field \<open>id\<close> is an
  \<open>int\<close>. A string is the list of its UTF-16 code units, and a code unit is a \<open>char\<close>:
  the strings modelled are those whose code units are all below 256.
\<close>

record Photo =
  photo_id :: int
  albumId :: int
  title :: string
  url :: string
  thumbnailUrl :: string

text \<open>
  \<open>type FavStore = { [id: number]: Photo }\<close>. An object is the list of its own
  properties, each key at most once; \<open>map_of\<close> reads a property (\<open>s[k]\<close>, \<open>None\<close> for
  \<open>undefined\<close>), \<open>AList.update\<close> assigns one (in place when the key exists, at the end
  otherwise) and \<open>AList.delete\<close> is the \<open>delete\<close> operator. Two stores are
  content-equal when \<open>map_of\<close> agrees on them. The type of the values is a parameter:
  the pages hold \<open>Photo\<close> values, the import works on the values \<open>JSON.parse\<close> returns.
\<close>

type_synonym 'v FavStore = "(int \<times> 'v) list"

section \<open>The favorites toggle (Gallery.tsx, PhotoDetail.tsx)\<close>

text \<open>
  \<open>setFavs((s) => (s[p.id] ? (delete s[p.id], { ...s }) : { ...s, [p.id]: p }))\<close>.
  A stored value is an object, hence truthy, so the test \<open>s[p.id]\<close> asks whether the
  key is present. The first branch deletes the key from the object it was given and
  returns a copy of what is left; the result of the function is that copy.
\<close>

definition toggleFav :: "Photo FavStore \<Rightarrow> Photo \<Rightarrow> Photo FavStore" where
  "toggleFav s p =
     (if map_of s (photo_id p) \<noteq> None
      then AList.delete (photo_id p) s
      else AList.update (photo_id p) p s)"

text \<open>
  The toggle of the detail page works on the photo the page has loaded, and does
  nothing while there is none (\<open>if (!photo) return\<close>).
\<close>

definition detail_toggleFav :: "Photo option \<Rightarrow> Photo FavStore \<Rightarrow> Photo FavStore" where
  "detail_toggleFav photo s =
     (case photo of
        None \<Rightarrow> s
      | Some ph \<Rightarrow>
          (if map_of s (photo_id ph) \<noteq> None
           then AList.delete (photo_id ph) s
           else AList.update (photo_id ph) ph s))"

section \<open>Values read from a file (Favorites.tsx)\<close>

text \<open>
  The values \<open>JSON.parse\<close> returns. Numbers are modelled by the integers (ids are);
  an object is the list of its own properties, each name once.
\<close>

datatype json =
    JNull
  | JBool bool
  | JNum int
  | JStr string
  | JArr "json list"
  | JObj "(string \<times> json) list"

text \<open>
  Reading one of the properties \<open>id\<close>, \<open>url\<close>, \<open>thumbnailUrl\<close>, \<open>title\<close>: \<open>None\<close> is
  \<open>undefined\<close>, which is what a number, a string, a boolean or an array gives for these
  names. Reading a property of \<open>null\<close> throws; the import tests \<open>p &&\<close> first.
\<close>

fun property :: "json \<Rightarrow> string \<Rightarrow> json option" where
  "property (JObj kvs) f = map_of kvs f"
| "property _ f = None"

text \<open>JavaScript's truthiness, on a value and on the result of a property read.\<close>

fun truthy :: "json \<Rightarrow> bool" where
  "truthy JNull = False"
| "truthy (JBool b) = b"
| "truthy (JNum n) = (n \<noteq> 0)"
| "truthy (JStr s) = (s \<noteq> [])"
| "truthy (JArr xs) = True"
| "truthy (JObj kvs) = True"

fun truthy_prop :: "json option \<Rightarrow> bool" where
  "truthy_prop None = False"
| "truthy_prop (Some v) = truthy v"

text \<open>
  The guard of the import loop,
  \<open>p && typeof p.id === "number" && p.url && p.thumbnailUrl && p.title\<close>,
  returning the key \<open>p.id\<close> under which an accepted element is stored.
\<close>

definition import_key :: "json \<Rightarrow> int option" where
  "import_key p =
     (if truthy p then
        (case property p ''id'' of
           Some (JNum n) \<Rightarrow>
             (if truthy_prop (property p ''url'') \<and> truthy_prop (property p ''thumbnailUrl'')
                 \<and> truthy_prop (property p ''title'')
              then Some n else None)
         | _ \<Rightarrow> None)
      else None)"

text \<open>
  \<open>for (const item of arr) { ...; if (guard) next[p.id] = p as Photo }\<close>. The cast is
  unchecked: the element is stored as it is.
\<close>

fun import_items :: "json FavStore \<Rightarrow> json list \<Rightarrow> json FavStore" where
  "import_items next [] = next"
| "import_items next (item # arr) =
     import_items
       (case import_key item of
          Some n \<Rightarrow> AList.update n item next
        | None \<Rightarrow> next)
       arr"

text \<open>
  \<open>onImportFile\<close>, an asynchronous handler. With no file chosen it returns at once.
  Otherwise the \<open>try\<close> block awaits the text and parses it, a value that is not an
  array throws \<open>Invalid file format\<close>, and the \<open>catch\<close> block turns every exception of
  the \<open>try\<close> block into the alert and leaves the store alone (\<open>setFavs\<close> is the last
  statement of the \<open>try\<close> block). \<open>JSON.parse\<close> is the language's own function and a
  parameter here: \<open>None\<close> is its \<open>SyntaxError\<close>.

  Then the \<open>finally\<close> block runs \<open>e.currentTarget.value = ""\<close>. The parameter
  \<open>currentTarget\<close> is what \<open>e.currentTarget\<close> is at that moment: the file input (given
  by its value), or \<open>null\<close> (\<open>None\<close>), on which the assignment throws a \<open>TypeError\<close>.
  The handler has returned to React at its \<open>await\<close> by then, and React sets the
  \<open>currentTarget\<close> of an event to \<open>null\<close> when the listener returns: in the running page
  \<open>currentTarget\<close> is \<open>None\<close>. An exception of the \<open>finally\<close> block is caught by nothing
  and rejects the promise the handler gave to its caller.

  The result is the store after the event with the alerts shown, and the exception
  the handler ends with, if any.
\<close>

datatype js_error = TypeError

definition import_failed :: string where
  "import_failed = ''Import failed: invalid JSON.''"

definition onImportFile ::
  "(string \<Rightarrow> json option) \<Rightarrow> string option \<Rightarrow> json FavStore \<Rightarrow> string option
     \<Rightarrow> (json FavStore \<times> string list) \<times> js_error option" where
  "onImportFile JSON_parse currentTarget favs file =
     (case file of
        None \<Rightarrow> ((favs, []), None)
      | Some text \<Rightarrow>
          ((case JSON_parse text of
              None \<Rightarrow> (favs, [import_failed])
            | Some (JArr arr) \<Rightarrow> (import_items favs arr, [])
            | Some _ \<Rightarrow> (favs, [import_failed])),
           (case currentTarget of
              None \<Rightarrow> Some TypeError
            | Some input_value \<Rightarrow> None)))"

text \<open>
  A \<open>Photo\<close> as the object the remote source and \<open>JSON.stringify\<close> give, and a store of
  photos as the store of these objects.
\<close>

definition json_of_Photo :: "Photo \<Rightarrow> json" where
  "json_of_Photo p =
     JObj [(''albumId'', JNum (albumId p)), (''id'', JNum (photo_id p)),
           (''title'', JStr (title p)), (''url'', JStr (url p)),
           (''thumbnailUrl'', JStr (thumbnailUrl p))]"

definition store_json :: "Photo FavStore \<Rightarrow> json FavStore" where
  "store_json s = map (\<lambda>(k, p). (k, json_of_Photo p)) s"

text \<open>
  A store of parsed objects is well formed when it is an object (no key twice) that
  holds every element under the element's own numeric \<open>id\<close>.
\<close>

definition wf_json_store :: "json FavStore \<Rightarrow> bool" where
  "wf_json_store s \<longleftrightarrow>
     distinct (map fst s) \<and> list_all (\<lambda>kv. property (snd kv) ''id'' = Some (JNum (fst kv))) s"

text \<open>
  The specification's wording of the element check, for comparison with the guard:
  an element structurally matches \<open>Photo\<close> when its \<open>id\<close> is a number and its \<open>url\<close>,
  \<open>thumbnailUrl\<close> and \<open>title\<close> are non-empty strings.
\<close>

fun nonempty_string :: "json option \<Rightarrow> bool" where
  "nonempty_string (Some (JStr s)) = (s \<noteq> [])"
| "nonempty_string _ = False"

definition spec_matches_Photo :: "json \<Rightarrow> bool" where
  "spec_matches_Photo p =
     ((case property p ''id'' of Some (JNum n) \<Rightarrow> True | _ \<Rightarrow> False)
      \<and> nonempty_string (property p ''url'') \<and> nonempty_string (property p ''thumbnailUrl'')
      \<and> nonempty_string (property p ''title''))"

text \<open>The elements of an array the import keeps, each with its key, in array order.\<close>

definition kept :: "json list \<Rightarrow> (int \<times> json) list" where
  "kept arr = List.map_filter (\<lambda>item. map_option (\<lambda>n. (n, item)) (import_key item)) arr"

section \<open>Strings and arrays of the language\<close>

text \<open>
  \<open>String.prototype.toLowerCase\<close>, \<open>trim\<close> and \<open>includes\<close>, on strings of code units
  below 256. The capital letters among these code units are \<open>A\<close> to \<open>Z\<close> and \<open>0xC0\<close> to
  \<open>0xDE\<close> without the multiplication sign \<open>0xD7\<close>; the small letter of each is 32
  further on, and \<open>toLowerCase\<close> leaves every other code unit as it is. \<open>trim\<close> strips
  the white space and line terminators of the language from both ends: tab, line
  feed, vertical tab, form feed, carriage return, space and the no-break space
  \<open>0xA0\<close>. \<open>includes\<close> asks for a contiguous occurrence.
\<close>

definition capital_letters :: string where
  "capital_letters =
     ''ABCDEFGHIJKLMNOPQRSTUVWXYZ''
     @ [CHR 0xC0, CHR 0xC1, CHR 0xC2, CHR 0xC3, CHR 0xC4, CHR 0xC5, CHR 0xC6, CHR 0xC7,
        CHR 0xC8, CHR 0xC9, CHR 0xCA, CHR 0xCB, CHR 0xCC, CHR 0xCD, CHR 0xCE, CHR 0xCF,
        CHR 0xD0, CHR 0xD1, CHR 0xD2, CHR 0xD3, CHR 0xD4, CHR 0xD5, CHR 0xD6,
        CHR 0xD8, CHR 0xD9, CHR 0xDA, CHR 0xDB, CHR 0xDC, CHR 0xDD, CHR 0xDE]"

definition small_letters :: string where
  "small_letters =
     ''abcdefghijklmnopqrstuvwxyz''
     @ [CHR 0xE0, CHR 0xE1, CHR 0xE2, CHR 0xE3, CHR 0xE4, CHR 0xE5, CHR 0xE6, CHR 0xE7,
        CHR 0xE8, CHR 0xE9, CHR 0xEA, CHR 0xEB, CHR 0xEC, CHR 0xED, CHR 0xEE, CHR 0xEF,
        CHR 0xF0, CHR 0xF1, CHR 0xF2, CHR 0xF3, CHR 0xF4, CHR 0xF5, CHR 0xF6,
        CHR 0xF8, CHR 0xF9, CHR 0xFA, CHR 0xFB, CHR 0xFC, CHR 0xFD, CHR 0xFE]"

definition toLowerCase_char :: "char \<Rightarrow> char" where
  "toLowerCase_char c =
     (case map_of (zip capital_letters small_letters) c of
        Some l \<Rightarrow> l
      | None \<Rightarrow> c)"

definition toLowerCase :: "string \<Rightarrow> string" where
  "toLowerCase s = map toLowerCase_char s"

definition is_whitespace :: "char \<Rightarrow> bool" where
  "is_whitespace c \<longleftrightarrow>
     c \<in> set [CHR 0x09, CHR 0x0A, CHR 0x0B, CHR 0x0C, CHR 0x0D, CHR '' '', CHR 0xA0]"

definition trim :: "string \<Rightarrow> string" where
  "trim s = rev (dropWhile is_whitespace (rev (dropWhile is_whitespace s)))"

definition str_includes :: "string \<Rightarrow> string \<Rightarrow> bool" where
  "str_includes s q = sublist q s"

text \<open>
  The specification's wording of the filter, for comparison with the code: the title
  contains the query as a case-insensitive substring when the query occurs at some
  position of the title, letter by letter, a capital letter and its small letter
  counting as the same letter.
\<close>

definition same_letter :: "char \<Rightarrow> char \<Rightarrow> bool" where
  "same_letter c d \<longleftrightarrow>
     c = d \<or> (c, d) \<in> set (zip capital_letters small_letters)
           \<or> (d, c) \<in> set (zip capital_letters small_letters)"



text \<open>
  \<open>Array.prototype.sort(compareFn)\<close>: the language requires a stable sort, and the
  order it gives for a consistent comparator is the one of a stable insertion sort:
  an element goes before the first element it does not compare greater than.
\<close>

fun sort_insert :: "('a \<Rightarrow> 'a \<Rightarrow> int) \<Rightarrow> 'a \<Rightarrow> 'a list \<Rightarrow> 'a list" where
  "sort_insert cmp x [] = [x]"
| "sort_insert cmp x (y # ys) =
     (if cmp x y \<le> 0 then x # y # ys else y # sort_insert cmp x ys)"

definition Array_sort :: "('a \<Rightarrow> 'a \<Rightarrow> int) \<Rightarrow> 'a list \<Rightarrow> 'a list" where
  "Array_sort cmp xs = foldr (sort_insert cmp) xs []"

text \<open>
  \<open>Object.values\<close>: the values of the keys that are array indices, in ascending
  order of the key, then the values of the other keys in the order of their creation.
\<close>

definition is_array_index :: "int \<Rightarrow> bool" where
  "is_array_index k \<longleftrightarrow> 0 \<le> k \<and> k < 2 ^ 32 - 1"

definition Object_values :: "'v FavStore \<Rightarrow> 'v list" where
  "Object_values s =
     map snd (sort_key fst (filter (\<lambda>kv. is_array_index (fst kv)) s))
     @ map snd (filter (\<lambda>kv. \<not> is_array_index (fst kv)) s)"

section \<open>The favorites page: filter, sort, remove, clear, export (Favorites.tsx)\<close>

text \<open>
  The memo \<open>filtered\<close>, in its two stages. \<open>favorites_res\<close> is the array \<open>res\<close>:
  \<open>q = qDebounced.trim().toLowerCase()\<close>, and
  \<open>res = q ? all.filter((p) => p.title.toLowerCase().includes(q)) : all.slice()\<close>.
\<close>

definition favorites_res :: "Photo list \<Rightarrow> string \<Rightarrow> Photo list" where
  "favorites_res all qDebounced =
     (let q = toLowerCase (trim qDebounced)
      in if q \<noteq> [] then filter (\<lambda>p. str_includes (toLowerCase (title p)) q) all else all)"

text \<open>
  Then the \<open>switch\<close> on \<open>sortParam = params.get("sort") ?? "idDesc"\<close> sorts \<open>res\<close>:
  \<open>title\<close> by \<open>a.title.localeCompare(b.title)\<close>, \<open>idAsc\<close> by \<open>a.id - b.id\<close>, and
  \<open>idDesc\<close> and every other value by \<open>b.id - a.id\<close>. \<open>localeCompare\<close> depends on the
  locale of the browser and is a parameter.
\<close>

definition filtered ::
  "(string \<Rightarrow> string \<Rightarrow> int) \<Rightarrow> Photo list \<Rightarrow> string \<Rightarrow> string option \<Rightarrow> Photo list" where
  "filtered localeCompare all qDebounced sort_param =
     (let res = favorites_res all qDebounced;
          sortParam = (case sort_param of None \<Rightarrow> ''idDesc'' | Some v \<Rightarrow> v)
      in if sortParam = ''title'' then Array_sort (\<lambda>a b. localeCompare (title a) (title b)) res
         else if sortParam = ''idAsc'' then Array_sort (\<lambda>a b. photo_id a - photo_id b) res
         else Array_sort (\<lambda>a b. photo_id b - photo_id a) res)"






text \<open>
  \<open>removeOne\<close> deletes the key of the photo from a copy of the store; \<open>clearAll\<close>
  returns at once when there is no favorite and otherwise empties the store when the
  user confirms (the answer to \<open>window.confirm\<close> is the first argument).
\<close>

definition removeOne :: "Photo FavStore \<Rightarrow> Photo \<Rightarrow> Photo FavStore" where
  "removeOne s p = AList.delete (photo_id p) s"

definition clearAll :: "bool \<Rightarrow> Photo FavStore \<Rightarrow> Photo FavStore" where
  "clearAll confirmed favs =
     (if Object_values favs = [] then favs else if confirmed then [] else favs)"

text \<open>
  \<open>exportJSON\<close>: \<open>payload = filtered.length ? filtered : all\<close> with
  \<open>all = Object.values(favs)\<close>, written with \<open>JSON.stringify\<close> into the file
  \<open>favorites.json\<close>. \<open>JSON.stringify\<close> is a parameter, applied to the array of the
  objects of the photos; the result is the text of the file.
\<close>

definition export_payload ::
  "(string \<Rightarrow> string \<Rightarrow> int) \<Rightarrow> Photo FavStore \<Rightarrow> string \<Rightarrow> string option \<Rightarrow> Photo list" where
  "export_payload localeCompare favs qDebounced sort_param =
     (let all = Object_values favs;
          filtered' = filtered localeCompare all qDebounced sort_param
      in if filtered' \<noteq> [] then filtered' else all)"

definition exportJSON ::
  "(json \<Rightarrow> string) \<Rightarrow> (string \<Rightarrow> string \<Rightarrow> int) \<Rightarrow> Photo FavStore \<Rightarrow> string \<Rightarrow> string option
     \<Rightarrow> string" where
  "exportJSON JSON_stringify localeCompare favs qDebounced sort_param =
     JSON_stringify (JArr (map json_of_Photo (export_payload localeCompare favs qDebounced sort_param)))"

text \<open>
  A store is well formed when it is an object (no key twice) that holds every photo
  under the photo's own id. The empty store is, and the toggle, \<open>removeOne\<close> and
  \<open>clearAll\<close> keep it so.
\<close>

definition wf_store :: "Photo FavStore \<Rightarrow> bool" where
  "wf_store s \<longleftrightarrow> distinct (map fst s) \<and> list_all (\<lambda>kv. photo_id (snd kv) = fst kv) s"

section \<open>The gallery's filter (Gallery.tsx)\<close>


section \<open>The pagination controller (Gallery.tsx)\<close>

text \<open>
  The state of the component: the six state variables the controller uses, and every
  call of \<open>fetchPhotosPage\<close> made so far, the oldest first. A request records the effect
  that made it, the page it asked for, the \<open>alive\<close> flag of that run of the effect
  (cleared by the clean-up of the effect) and whether its promise has settled.
\<close>

datatype effect = Appender | Reset

record request =
  origin :: effect
  req_page :: nat
  alive :: bool
  settled :: bool

record gallery =
  page :: nat
  items :: "Photo list"
  hasMore :: bool
  loading :: bool
  initialLoaded :: bool
  error :: "string option"
  requests :: "request list"

text \<open>
  What happens to the component: the callback of the sentinel is called; the promise
  of a request resolves with a page or rejects; the query or the album changes; the
  user clicks \<open>Retry\<close>. The hook \<open>useInfiniteRef\<close> observes the sentinel and calls the
  callback \<open>Gallery\<close> has passed to it at the latest render whenever the sentinel
  comes into view; the event \<open>Sentinel\<close> is one such call.
\<close>

datatype event =
    Sentinel
  | Resolved nat "Photo list"
  | Rejected nat
  | FiltersChanged
  | Retry

text \<open>The clean-up of an effect clears the \<open>alive\<close> flag of the run before.\<close>

definition cleanup :: "effect \<Rightarrow> request list \<Rightarrow> request list" where
  "cleanup e rs = map (\<lambda>r. if origin r = e then r\<lparr>alive := False\<rparr> else r) rs"

text \<open>
  The page appender, an effect of \<open>[page]\<close>: \<open>setLoading(true); setError(null);
  fetchPhotosPage(page)\<close>.
\<close>

definition page_effect :: "gallery \<Rightarrow> gallery" where
  "page_effect s =
     s\<lparr>loading := True, error := None,
       requests := cleanup Appender (requests s)
          @ [\<lparr>origin = Appender, req_page = page s, alive = True, settled = False\<rparr>]\<rparr>"

text \<open>
  The reset, an effect of \<open>[qDebounced, albumParam]\<close>: \<open>setItems([]); setHasMore(true);
  setPage(1); setLoading(true); setError(null); fetchPhotosPage(1)\<close>.
\<close>

definition reset_effect :: "gallery \<Rightarrow> gallery" where
  "reset_effect s =
     s\<lparr>items := [], hasMore := True, page := 1, loading := True, error := None,
       requests := cleanup Reset (requests s)
          @ [\<lparr>origin = Reset, req_page = 1, alive = True, settled = False\<rparr>]\<rparr>"

text \<open>
  \<open>setPage\<close> with an updater: the page appender runs again when, and only when, the
  page has changed.
\<close>

definition setPage :: "(nat \<Rightarrow> nat) \<Rightarrow> gallery \<Rightarrow> gallery" where
  "setPage f s =
     (let s' = s\<lparr>page := f (page s)\<rparr>
      in if page s' \<noteq> page s then page_effect s' else s')"

text \<open>After the first render both effects run, in the order of the component.\<close>

definition mount :: gallery where
  "mount =
     reset_effect
       (page_effect
          \<lparr>page = 1, items = [], hasMore = True, loading = False, initialLoaded = False,
           error = None, requests = []\<rparr>)"

definition settle :: "nat \<Rightarrow> gallery \<Rightarrow> gallery" where
  "settle n s = s\<lparr>requests := (requests s)[n := (requests s ! n)\<lparr>settled := True\<rparr>]\<rparr>"

definition pending :: "nat \<Rightarrow> gallery \<Rightarrow> bool" where
  "pending n s \<longleftrightarrow> n < length (requests s) \<and> \<not> settled (requests s ! n)"

definition could_not_load :: string where
  "could_not_load = ''Could not load photos''"

text \<open>
  One event. The sentinel's callback is
  \<open>hasMore && !loading && !error && setPage((p) => p + 1)\<close>. A promise settles once; the
  handlers do nothing when the run of the effect is not alive any more; the appender
  appends the page and the reset replaces the items by it, and both clear \<open>hasMore\<close>
  when the page has fewer than 24 photos. A change of the filters runs the reset, and
  then the page appender when the reset has changed the page. \<open>Retry\<close> is
  \<open>setPage((p) => p)\<close>.
\<close>

fun step :: "event \<Rightarrow> gallery \<Rightarrow> gallery" where
  "step Sentinel s =
     (if hasMore s \<and> \<not> loading s \<and> error s = None then setPage (\<lambda>p. p + 1) s else s)"
| "step (Resolved n data) s =
     (if pending n s then
        (if alive (requests s ! n) then
           (settle n s)
             \<lparr>items := (case origin (requests s ! n) of
                          Appender \<Rightarrow> items s @ data
                        | Reset \<Rightarrow> data),
              hasMore := (if length data < 24 then False else hasMore s),
              loading := False, initialLoaded := True\<rparr>
         else settle n s)
      else s)"
| "step (Rejected n) s =
     (if pending n s then
        (if alive (requests s ! n) then
           (settle n s)\<lparr>error := Some could_not_load, loading := False, initialLoaded := True\<rparr>
         else settle n s)
      else s)"
| "step FiltersChanged s =
     (let s' = reset_effect s in if page s \<noteq> 1 then page_effect s' else s')"
| "step Retry s = setPage (\<lambda>p. p) s"

definition run :: "event list \<Rightarrow> gallery \<Rightarrow> gallery" where
  "run evs s = fold step evs s"

text \<open>The calls of \<open>fetchPhotosPage\<close> made so far: the effect that called, and the page.\<close>

definition fetches :: "gallery \<Rightarrow> (effect \<times> nat) list" where
  "fetches s = map (\<lambda>r. (origin r, req_page r)) (requests s)"

text \<open>
  A page of the remote source, for the examples: \<open>n\<close> photos with the ids \<open>first\<close>,
  \<open>first + 1\<close>, and so on. And the run of three pages of 24, 24 and 10 photos: the two
  requests for page 1 made at the mount resolve, the sentinel asks for page 2, then
  for page 3.
\<close>

definition remote_page :: "nat \<Rightarrow> nat \<Rightarrow> Photo list" where
  "remote_page first n =
     map (\<lambda>i. \<lparr>photo_id = int i, albumId = 1, title = ''photo'', url = ''u'', thumbnailUrl = ''t''\<rparr>)
       [first ..< first + n]"

definition pages_24_24_10 :: "event list" where
  "pages_24_24_10 =
     [Resolved 0 (remote_page 1 24), Resolved 1 (remote_page 1 24), Sentinel,
      Resolved 2 (remote_page 25 24), Sentinel, Resolved 3 (remote_page 49 10)]"

section \<open>The detail page: loading the photo (PhotoDetail.tsx)\<close>

text \<open>
  The number \<open>pid = Number(id)\<close>: not a number, a finite number, or an infinity.
  \<open>Number\<close> is the language's conversion and a parameter; the route parameter \<open>id\<close> is
  a string or \<open>undefined\<close> (\<open>None\<close>).
\<close>

datatype number = NaN | Finite real | PosInfinity | NegInfinity

fun Number_isFinite :: "number \<Rightarrow> bool" where
  "Number_isFinite (Finite r) = True"
| "Number_isFinite _ = False"

text \<open>The comparison \<open>pid <= 0\<close>, false for \<open>NaN\<close>.\<close>

fun le_zero :: "number \<Rightarrow> bool" where
  "le_zero (Finite r) = (r \<le> 0)"
| "le_zero NegInfinity = True"
| "le_zero _ = False"

text \<open>
  The state of the page, with the calls of \<open>fetchPhoto\<close> made so far, and the body of
  the effect that loads the photo.
\<close>

record detail =
  photo :: "Photo option"
  err :: "string option"
  loaded :: bool
  fetched :: "number list"

definition load_photo :: "number \<Rightarrow> detail \<Rightarrow> detail" where
  "load_photo pid s =
     (if \<not> Number_isFinite pid \<or> le_zero pid
      then s\<lparr>err := Some ''Invalid photo id''\<rparr>
      else s\<lparr>err := None, loaded := False, photo := None, fetched := fetched s @ [pid]\<rparr>)"

definition PhotoDetail_load ::
  "(string option \<Rightarrow> number) \<Rightarrow> string option \<Rightarrow> detail \<Rightarrow> detail" where
  "PhotoDetail_load Number id' s = load_photo (Number id') s"

section \<open>Properties of the toggle\<close>

lemma map_of_toggleFav:
  "map_of (toggleFav s p) =
     (if map_of s (photo_id p) \<noteq> None
      then (map_of s)(photo_id p := None)
      else (map_of s)(photo_id p \<mapsto> p))"
  by (simp add: toggleFav_def update_conv' delete_conv')

lemma detail_toggleFav_Some: "detail_toggleFav (Some p) s = toggleFav s p"
  by (simp add: detail_toggleFav_def toggleFav_def)

text \<open>
  C1, as stated, fails: when the store holds under \<open>p.id\<close> a photo whose content
  differs from \<open>p\<close>, the first toggle removes the stored photo and the second inserts
  \<open>p\<close>, so the store ends with \<open>p\<close> in place of the photo it held.
\<close>

theorem toggleFav_twice_counterexample:
  "map_of (toggleFav
      (toggleFav
         [(1, \<lparr>photo_id = 1, albumId = 1, title = ''A'', url = ''u'', thumbnailUrl = ''t''\<rparr>)]
         \<lparr>photo_id = 1, albumId = 1, title = ''B'', url = ''u'', thumbnailUrl = ''t''\<rparr>)
      \<lparr>photo_id = 1, albumId = 1, title = ''B'', url = ''u'', thumbnailUrl = ''t''\<rparr>)
   \<noteq> map_of [(1, \<lparr>photo_id = 1, albumId = 1, title = ''A'', url = ''u'', thumbnailUrl = ''t''\<rparr>)]"
  by (simp add: toggleFav_def fun_eq_iff)

text \<open>
  C1 (amended): for every store \<open>S\<close> and photo \<open>p\<close>, toggling \<open>p\<close> twice gives a store
  with the keys of \<open>S\<close>; when \<open>p.id\<close> is not a key of \<open>S\<close> the first toggle inserts \<open>p\<close>
  and the second removes it, and the result is content-equal to \<open>S\<close>; when \<open>p.id\<close> is a
  key the first toggle removes it and the second inserts \<open>p\<close>, and the result is \<open>S\<close>
  with \<open>p\<close> under \<open>p.id\<close>, which is content-equal to \<open>S\<close> exactly when \<open>S\<close> already held
  \<open>p\<close> there. The toggle of the detail page is the same function.
\<close>

theorem toggleFav_twice:
  "map_of (toggleFav (toggleFav S p) p) =
     (if map_of S (photo_id p) = None then map_of S else (map_of S)(photo_id p \<mapsto> p))
   \<and> dom (map_of (toggleFav (toggleFav S p) p)) = dom (map_of S)
   \<and> (map_of (toggleFav (toggleFav S p) p) = map_of S
        \<longleftrightarrow> map_of S (photo_id p) = None \<or> map_of S (photo_id p) = Some p)
   \<and> (map_of S (photo_id p) = None \<longrightarrow>
        map_of (toggleFav S p) = (map_of S)(photo_id p \<mapsto> p))
   \<and> (map_of S (photo_id p) \<noteq> None \<longrightarrow>
        map_of (toggleFav S p) = (map_of S)(photo_id p := None))
   \<and> detail_toggleFav (Some p) (detail_toggleFav (Some p) S) = toggleFav (toggleFav S p) p"
proof -
  have twice: "map_of (toggleFav (toggleFav S p) p) =
     (if map_of S (photo_id p) = None then map_of S else (map_of S)(photo_id p \<mapsto> p))"
    by (auto simp: map_of_toggleFav fun_eq_iff)
  have keys: "dom (map_of (toggleFav (toggleFav S p) p)) = dom (map_of S)"
    unfolding twice by auto
  have same: "map_of (toggleFav (toggleFav S p) p) = map_of S
        \<longleftrightarrow> map_of S (photo_id p) = None \<or> map_of S (photo_id p) = Some p"
    unfolding twice by (auto simp: fun_eq_iff)
  show ?thesis
    using twice keys same by (simp add: map_of_toggleFav detail_toggleFav_Some)
qed

theorem toggleFav_twice_witness:
  "map_of (toggleFav []
       \<lparr>photo_id = 7, albumId = 1, title = ''Cat'', url = ''u'', thumbnailUrl = ''t''\<rparr>)
     = [7 \<mapsto> \<lparr>photo_id = 7, albumId = 1, title = ''Cat'', url = ''u'', thumbnailUrl = ''t''\<rparr>]
   \<and> map_of (toggleFav
        [(7, \<lparr>photo_id = 7, albumId = 1, title = ''Cat'', url = ''u'', thumbnailUrl = ''t''\<rparr>)]
        \<lparr>photo_id = 7, albumId = 1, title = ''Cat'', url = ''u'', thumbnailUrl = ''t''\<rparr>)
     = Map.empty
   \<and> map_of (toggleFav (toggleFav
        [(7, \<lparr>photo_id = 7, albumId = 1, title = ''Cat'', url = ''u'', thumbnailUrl = ''t''\<rparr>)]
        \<lparr>photo_id = 7, albumId = 1, title = ''Cat'', url = ''u'', thumbnailUrl = ''t''\<rparr>)
        \<lparr>photo_id = 7, albumId = 1, title = ''Cat'', url = ''u'', thumbnailUrl = ''t''\<rparr>)
     = map_of [(7, \<lparr>photo_id = 7, albumId = 1, title = ''Cat'', url = ''u'', thumbnailUrl = ''t''\<rparr>)]"
proof -
  let ?cat = "\<lparr>photo_id = 7, albumId = 1, title = ''Cat'', url = ''u'', thumbnailUrl = ''t''\<rparr>"
  have absent: "map_of ([] :: Photo FavStore) (photo_id ?cat) = None"
    by simp
  have present: "map_of [(7, ?cat)] (photo_id ?cat) \<noteq> None"
    by simp
  have held: "map_of [(7, ?cat)] (photo_id ?cat) = None \<or> map_of [(7, ?cat)] (photo_id ?cat) = Some ?cat"
    by simp
  note T0 = toggleFav_twice [where S = "[]" and p = ?cat]
  note T1 = toggleFav_twice [where S = "[(7, ?cat)]" and p = ?cat]
  have "map_of (toggleFav [] ?cat) = (map_of [])(photo_id ?cat \<mapsto> ?cat)"
    using T0 [THEN conjunct2, THEN conjunct2, THEN conjunct2, THEN conjunct1] absent by (rule mp)
  then have a: "map_of (toggleFav [] ?cat) = [7 \<mapsto> ?cat]"
    by simp
  have "map_of (toggleFav [(7, ?cat)] ?cat) = (map_of [(7, ?cat)])(photo_id ?cat := None)"
    using T1 [THEN conjunct2, THEN conjunct2, THEN conjunct2, THEN conjunct2, THEN conjunct1] present
    by (rule mp)
  then have b: "map_of (toggleFav [(7, ?cat)] ?cat) = Map.empty"
    by simp
  have c: "map_of (toggleFav (toggleFav [(7, ?cat)] ?cat) ?cat) = map_of [(7, ?cat)]"
    using T1 [THEN conjunct2, THEN conjunct2, THEN conjunct1] held by (rule iffD2)
  show ?thesis using a b c by (intro conjI)
qed

section \<open>Properties of the import\<close>

lemma kept_Nil: "kept [] = []"
  by (simp add: kept_def)

lemma kept_Cons:
  "kept (item # arr) =
     (case import_key item of None \<Rightarrow> kept arr | Some n \<Rightarrow> (n, item) # kept arr)"
  by (simp add: kept_def split: option.splits)

lemma map_of_import_items:
  "map_of (import_items S arr) = map_of S ++ map_of (rev (kept arr))"
proof (induction arr arbitrary: S)
  case Nil
  show ?case by (simp add: kept_Nil)
next
  case (Cons item arr)
  show ?case
  proof (cases "import_key item")
    case None
    then show ?thesis using Cons.IH [of S] by (simp add: kept_Cons)
  next
    case (Some n)
    have "map_of (import_items (AList.update n item S) arr)
            = (map_of S)(n \<mapsto> item) ++ map_of (rev (kept arr))"
      by (simp only: Cons.IH [of "AList.update n item S"] update_conv')
    also have "\<dots> = map_of S ++ ([n \<mapsto> item] ++ map_of (rev (kept arr)))"
      by (auto simp: fun_eq_iff map_add_def split: option.splits)
    finally show ?thesis using Some by (simp add: kept_Cons)
  qed
qed

lemma import_key_SomeD:
  "import_key p = Some n \<Longrightarrow>
     property p ''id'' = Some (JNum n) \<and> truthy_prop (property p ''url'')
     \<and> truthy_prop (property p ''thumbnailUrl'') \<and> truthy_prop (property p ''title'')"
  by (auto simp: import_key_def split: if_splits option.splits json.splits)

lemma nonempty_string_truthy: "nonempty_string v \<Longrightarrow> truthy_prop v"
  by (cases v rule: nonempty_string.cases) auto

lemma spec_matches_Photo_kept:
  "spec_matches_Photo p \<Longrightarrow> \<exists>n. property p ''id'' = Some (JNum n) \<and> import_key p = Some n"
  by (cases p)
     (auto simp: spec_matches_Photo_def import_key_def nonempty_string_truthy
           split: option.splits json.splits)

lemma truthy_prop_iff:
  "truthy_prop v \<longleftrightarrow>
     v \<noteq> None \<and> v \<noteq> Some JNull \<and> v \<noteq> Some (JBool False) \<and> v \<noteq> Some (JNum 0) \<and> v \<noteq> Some (JStr [])"
proof (cases v)
  case None
  then show ?thesis by simp
next
  case (Some a)
  then show ?thesis by (cases a) auto
qed

lemma import_key_iff:
  "import_key item = Some n \<longleftrightarrow>
     property item ''id'' = Some (JNum n) \<and> truthy_prop (property item ''url'')
     \<and> truthy_prop (property item ''thumbnailUrl'') \<and> truthy_prop (property item ''title'')"
  by (cases item) (auto simp: import_key_def split: option.splits json.splits)

lemma set_kept: "set (kept arr) = {(n, item). item \<in> set arr \<and> import_key item = Some n}"
  by (induction arr) (auto simp: kept_Nil kept_Cons split: option.splits)

lemma dom_import_items: "dom (map_of S) \<subseteq> dom (map_of (import_items S arr))"
  by (simp add: map_of_import_items)

lemma import_items_untouched:
  "k \<notin> fst ` set (kept arr) \<Longrightarrow> map_of (import_items S arr) k = map_of S k"
  by (simp add: map_of_import_items map_add_def map_of_eq_None_iff [THEN iffD2] split: option.splits)

text \<open>
  C3, on two imports into the empty store, \<open>currentTarget\<close> being \<open>null\<close> as it is in
  the running page. The element whose \<open>url\<close>, \<open>thumbnailUrl\<close> and \<open>title\<close> are empty
  arrays does not structurally match \<open>Photo\<close>, and the import keeps it under its id:
  the guard tests the three fields for truthiness only. And the import of one valid
  element and one garbage element gives the store that holds the valid element
  only, without an alert, as the claim says, but the handler ends with the
  \<open>TypeError\<close> of its \<open>finally\<close> block, as it does after every import of a chosen file.
\<close>

theorem import_keeps_non_Photo_and_throws:
  "\<not> spec_matches_Photo (JObj [(''id'', JNum 1), (''url'', JArr []), (''thumbnailUrl'', JArr []), (''title'', JArr [])])
   \<and> onImportFile (\<lambda>t. Some (JArr [JObj [(''id'', JNum 1), (''url'', JArr []), (''thumbnailUrl'', JArr []), (''title'', JArr [])]])) None [] (Some ''file'')
       = (([(1, JObj [(''id'', JNum 1), (''url'', JArr []), (''thumbnailUrl'', JArr []), (''title'', JArr [])])], []), Some TypeError)
   \<and> spec_matches_Photo (JObj [(''id'', JNum 1), (''title'', JStr ''Cat''), (''url'', JStr ''u''),
                (''thumbnailUrl'', JStr ''t'')])
   \<and> \<not> spec_matches_Photo (JObj [(''garbage'', JBool True)])
   \<and> onImportFile (\<lambda>t. Some (JArr [JObj [(''id'', JNum 1), (''title'', JStr ''Cat''), (''url'', JStr ''u''),
                (''thumbnailUrl'', JStr ''t'')], JObj [(''garbage'', JBool True)]])) None [] (Some ''file'')
       = (([(1, JObj [(''id'', JNum 1), (''title'', JStr ''Cat''), (''url'', JStr ''u''),
                (''thumbnailUrl'', JStr ''t'')])], []), Some TypeError)
   \<and> snd (onImportFile JSON_parse None S (Some content)) = Some TypeError"
  by (simp add: spec_matches_Photo_def onImportFile_def import_key_def)

lemma wf_json_store_update:
  "wf_json_store S \<Longrightarrow> property item ''id'' = Some (JNum n) \<Longrightarrow>
     wf_json_store (AList.update n item S)"
proof -
  assume wf: "wf_json_store S" and idp: "property item ''id'' = Some (JNum n)"
  have "list_all (\<lambda>kv. property (snd kv) ''id'' = Some (JNum (fst kv))) (AList.update n item T)"
    if "list_all (\<lambda>kv. property (snd kv) ''id'' = Some (JNum (fst kv))) T" for T
    using that idp by (induction T) auto
  with wf show ?thesis
    by (simp add: wf_json_store_def distinct_update)
qed

lemma wf_json_store_import_items:
  "wf_json_store S \<Longrightarrow> wf_json_store (import_items S arr)"
proof (induction arr arbitrary: S)
  case Nil
  then show ?case by simp
next
  case (Cons item arr)
  show ?case
  proof (cases "import_key item")
    case None
    with Cons show ?thesis by simp
  next
    case (Some n)
    then have "property item ''id'' = Some (JNum n)"
      using import_key_SomeD by blast
    with Cons Some show ?thesis
      by (simp add: wf_json_store_update)
  qed
qed

text \<open>
  C4: for every store and every text, the import alerts and leaves the store as it was
  exactly when \<open>JSON.parse\<close> rejects the text or returns a value that is not an array;
  when it returns an array there is no alert, whatever the elements are. So the text
  \<open>not json\<close>, which \<open>JSON.parse\<close> rejects, leaves the store unchanged and is reported.
  This is so whatever \<open>currentTarget\<close> is when the \<open>finally\<close> block runs.
\<close>

theorem import_rejected:
  "((JSON_parse content = None
       \<or> (\<exists>v. JSON_parse content = Some v \<and> (\<forall>arr. v \<noteq> JArr arr)))
      \<longleftrightarrow> fst (onImportFile JSON_parse ct S (Some content)) = (S, [import_failed]))
   \<and> ((\<exists>arr. JSON_parse content = Some (JArr arr))
        \<longleftrightarrow> snd (fst (onImportFile JSON_parse ct S (Some content))) = [])
   \<and> (JSON_parse ''not json'' = None \<longrightarrow>
        fst (onImportFile JSON_parse ct S (Some ''not json'')) = (S, [import_failed]))"
  by (auto simp: onImportFile_def import_failed_def split: option.splits json.splits)

theorem import_rejected_witness:
  "fst (onImportFile (\<lambda>t. if t = ''[]'' then Some (JArr []) else if t = ''7'' then Some (JNum 7) else None)
      None
      [(3, JObj [(''id'', JNum 3), (''title'', JStr ''Dog''), (''url'', JStr ''u''),
                 (''thumbnailUrl'', JStr ''t'')])]
      (Some ''not json''))
    = ([(3, JObj [(''id'', JNum 3), (''title'', JStr ''Dog''), (''url'', JStr ''u''),
                  (''thumbnailUrl'', JStr ''t'')])],
       [''Import failed: invalid JSON.''])
   \<and> fst (onImportFile (\<lambda>t. if t = ''[]'' then Some (JArr []) else if t = ''7'' then Some (JNum 7) else None)
      None
      [(3, JObj [(''id'', JNum 3), (''title'', JStr ''Dog''), (''url'', JStr ''u''),
                 (''thumbnailUrl'', JStr ''t'')])]
      (Some ''7''))
    = ([(3, JObj [(''id'', JNum 3), (''title'', JStr ''Dog''), (''url'', JStr ''u''),
                  (''thumbnailUrl'', JStr ''t'')])],
       [''Import failed: invalid JSON.''])"
proof -
  let ?P = "\<lambda>t. if t = ''[]'' then Some (JArr []) else if t = ''7'' then Some (JNum 7) else None"
  let ?S = "[(3::int, JObj [(''id'', JNum 3), (''title'', JStr ''Dog''), (''url'', JStr ''u''),
                 (''thumbnailUrl'', JStr ''t'')])]"
  have a: "?P ''not json'' = None"
    by simp
  have b: "?P ''7'' = None \<or> (\<exists>v. ?P ''7'' = Some v \<and> (\<forall>arr. v \<noteq> JArr arr))"
    by simp
  have "fst (onImportFile ?P None ?S (Some ''not json'')) = (?S, [import_failed])"
    using import_rejected [where JSON_parse = ?P and S = ?S and ct = None,
        THEN conjunct2, THEN conjunct2] a
    by (rule mp)
  moreover have "fst (onImportFile ?P None ?S (Some ''7'')) = (?S, [import_failed])"
    using import_rejected [where JSON_parse = ?P and S = ?S and content = "''7''" and ct = None,
        THEN conjunct1] b
    by (rule iffD1)
  ultimately show ?thesis by (simp add: import_failed_def)
qed

section \<open>Properties of sorting and filtering\<close>

lemma mset_sort_insert: "mset (sort_insert cmp x xs) = add_mset x (mset xs)"
  by (induction xs) auto

lemma mset_Array_sort: "mset (Array_sort cmp xs) = mset xs"
  by (induction xs) (auto simp: Array_sort_def mset_sort_insert)

lemma set_sort_insert: "set (sort_insert cmp x xs) = insert x (set xs)"
  by (induction xs) auto

lemma set_Array_sort: "set (Array_sort cmp xs) = set xs"
  by (induction xs) (auto simp: Array_sort_def set_sort_insert)

lemma sorted_wrt_sort_insert:
  assumes tot: "\<And>x y. cmp x y \<le> 0 \<or> cmp y x \<le> 0"
    and trans: "\<And>x y z. cmp x y \<le> 0 \<Longrightarrow> cmp y z \<le> 0 \<Longrightarrow> cmp x z \<le> 0"
    and srt: "sorted_wrt (\<lambda>a b. cmp a b \<le> 0) xs"
  shows "sorted_wrt (\<lambda>a b. cmp a b \<le> 0) (sort_insert cmp x xs)"
  using srt
proof (induction xs)
  case Nil
  show ?case by simp
next
  case (Cons y ys)
  show ?case
  proof (cases "cmp x y \<le> 0")
    case True
    then have "\<forall>z\<in>set ys. cmp x z \<le> 0"
      using Cons.prems trans by auto
    with True Cons.prems show ?thesis by simp
  next
    case False
    then have "cmp y x \<le> 0" using tot [of x y] by simp
    with False Cons show ?thesis by (auto simp: set_sort_insert)
  qed
qed

lemma sorted_wrt_Array_sort:
  assumes tot: "\<And>x y. cmp x y \<le> 0 \<or> cmp y x \<le> 0"
    and trans: "\<And>x y z. cmp x y \<le> 0 \<Longrightarrow> cmp y z \<le> 0 \<Longrightarrow> cmp x z \<le> 0"
  shows "sorted_wrt (\<lambda>a b. cmp a b \<le> 0) (Array_sort cmp xs)"
proof (induction xs)
  case Nil
  show ?case by (simp add: Array_sort_def)
next
  case (Cons x xs)
  have "Array_sort cmp (x # xs) = sort_insert cmp x (Array_sort cmp xs)"
    by (simp add: Array_sort_def)
  with Cons show ?case
    using sorted_wrt_sort_insert [of cmp "Array_sort cmp xs" x] tot trans by simp
qed

lemma Array_sort_idAsc: "sorted (map photo_id (Array_sort (\<lambda>a b. photo_id a - photo_id b) xs))"
proof -
  have "sorted_wrt (\<lambda>a b. photo_id a - photo_id b \<le> 0) (Array_sort (\<lambda>a b. photo_id a - photo_id b) xs)"
    by (rule sorted_wrt_Array_sort) auto
  then show ?thesis by (simp add: sorted_map)
qed

lemma Array_sort_idDesc:
  "sorted (rev (map photo_id (Array_sort (\<lambda>a b. photo_id b - photo_id a) xs)))"
proof -
  have "sorted_wrt (\<lambda>a b. photo_id b - photo_id a \<le> 0) (Array_sort (\<lambda>a b. photo_id b - photo_id a) xs)"
    by (rule sorted_wrt_Array_sort) auto
  then have "sorted_wrt (\<lambda>a b. photo_id b \<le> photo_id a) (Array_sort (\<lambda>a b. photo_id b - photo_id a) xs)"
    by simp
  then show ?thesis
    by (simp add: sorted_wrt_rev sorted_wrt_map)
qed

lemma Array_sort_title:
  assumes "\<forall>x y. localeCompare x y \<le> 0 \<or> localeCompare y x \<le> 0"
    and "\<forall>x y z. localeCompare x y \<le> 0 \<and> localeCompare y z \<le> 0 \<longrightarrow> localeCompare x z \<le> 0"
  shows "sorted_wrt (\<lambda>a b. localeCompare (title a) (title b) \<le> 0)
           (Array_sort (\<lambda>a b. localeCompare (title a) (title b)) xs)"
  by (rule sorted_wrt_Array_sort) (use assms in blast)+

lemma str_includes_Nil: "str_includes s []"
  by (simp add: str_includes_def)

lemma favorites_res_filter:
  "favorites_res all q =
     filter (\<lambda>p. str_includes (toLowerCase (title p)) (toLowerCase (trim q))) all"
  by (simp add: favorites_res_def Let_def str_includes_Nil)

lemma filtered_cases:
  "filtered lc all q sp =
     (if sp = Some ''title'' then Array_sort (\<lambda>a b. lc (title a) (title b)) (favorites_res all q)
      else if sp = Some ''idAsc'' then Array_sort (\<lambda>a b. photo_id a - photo_id b) (favorites_res all q)
      else Array_sort (\<lambda>a b. photo_id b - photo_id a) (favorites_res all q))"
  by (cases sp) (simp_all add: filtered_def Let_def)

lemma mset_filtered: "mset (filtered lc all q sp) = mset (favorites_res all q)"
  by (simp add: filtered_cases mset_Array_sort)

lemma set_filtered: "set (filtered lc all q sp) = set (favorites_res all q)"
  using mset_filtered [of lc all q sp] by (metis set_mset_mset)

lemma filtered_Nil_iff: "filtered lc all q sp = [] \<longleftrightarrow> favorites_res all q = []"
  using mset_filtered [of lc all q sp] by (metis mset_zero_iff)






















lemmas string_eval =
  trim_def is_whitespace_def toLowerCase_def toLowerCase_char_def capital_letters_def
  small_letters_def str_includes_def sublist_code(3) same_letter_def




text \<open>
  C6: for every sequence of photos (and every query), the key \<open>idAsc\<close> gives the
  output in ascending order of id; \<open>idDesc\<close> gives it in descending order of id, and
  so do a missing key and every key other than \<open>title\<close> and \<open>idAsc\<close>; the key \<open>title\<close>
  gives it in ascending order of \<open>localeCompare\<close> on the titles, for every
  \<open>localeCompare\<close> that is a total preorder; in each case the output is a permutation
  of the filtered photos. The ids 3, 1, 2 come out as 1, 2, 3 with \<open>idAsc\<close> and as
  3, 2, 1 with \<open>idDesc\<close>.
\<close>

theorem favorites_sort:
  "sorted (map photo_id (filtered lc all q (Some ''idAsc'')))
   \<and> sorted (rev (map photo_id (filtered lc all q (Some ''idDesc''))))
   \<and> filtered lc all q None = filtered lc all q (Some ''idDesc'')
   \<and> (sp \<noteq> Some ''title'' \<and> sp \<noteq> Some ''idAsc'' \<longrightarrow>
        filtered lc all q sp = filtered lc all q (Some ''idDesc''))
   \<and> ((\<forall>x y. lc x y \<le> 0 \<or> lc y x \<le> 0)
        \<and> (\<forall>x y z. lc x y \<le> 0 \<and> lc y z \<le> 0 \<longrightarrow> lc x z \<le> 0) \<longrightarrow>
        sorted_wrt (\<lambda>a b. lc (title a) (title b) \<le> 0) (filtered lc all q (Some ''title'')))
   \<and> mset (filtered lc all q sp) = mset (favorites_res all q)
   \<and> map photo_id (filtered lc
        [\<lparr>photo_id = 3, albumId = 1, title = ''c'', url = ''u'', thumbnailUrl = ''t''\<rparr>,
         \<lparr>photo_id = 1, albumId = 1, title = ''a'', url = ''u'', thumbnailUrl = ''t''\<rparr>,
         \<lparr>photo_id = 2, albumId = 1, title = ''b'', url = ''u'', thumbnailUrl = ''t''\<rparr>]
        [] (Some ''idAsc'')) = [1, 2, 3]
   \<and> map photo_id (filtered lc
        [\<lparr>photo_id = 3, albumId = 1, title = ''c'', url = ''u'', thumbnailUrl = ''t''\<rparr>,
         \<lparr>photo_id = 1, albumId = 1, title = ''a'', url = ''u'', thumbnailUrl = ''t''\<rparr>,
         \<lparr>photo_id = 2, albumId = 1, title = ''b'', url = ''u'', thumbnailUrl = ''t''\<rparr>]
        [] (Some ''idDesc'')) = [3, 2, 1]"
proof -
  have asc: "sorted (map photo_id (filtered lc all q (Some ''idAsc'')))"
    by (simp add: filtered_cases Array_sort_idAsc)
  have desc: "sorted (rev (map photo_id (filtered lc all q (Some ''idDesc''))))"
    by (simp add: filtered_cases Array_sort_idDesc)
  have dflt: "filtered lc all q None = filtered lc all q (Some ''idDesc'')"
    by (simp add: filtered_cases)
  have other: "sp \<noteq> Some ''title'' \<and> sp \<noteq> Some ''idAsc'' \<longrightarrow>
        filtered lc all q sp = filtered lc all q (Some ''idDesc'')"
    by (simp add: filtered_cases)
  have ttl: "(\<forall>x y. lc x y \<le> 0 \<or> lc y x \<le> 0)
        \<and> (\<forall>x y z. lc x y \<le> 0 \<and> lc y z \<le> 0 \<longrightarrow> lc x z \<le> 0) \<longrightarrow>
        sorted_wrt (\<lambda>a b. lc (title a) (title b) \<le> 0) (filtered lc all q (Some ''title''))"
  proof (intro impI, elim conjE)
    assume tot: "\<forall>x y. lc x y \<le> 0 \<or> lc y x \<le> 0"
      and trans: "\<forall>x y z. lc x y \<le> 0 \<and> lc y z \<le> 0 \<longrightarrow> lc x z \<le> 0"
    have "filtered lc all q (Some ''title'')
            = Array_sort (\<lambda>a b. lc (title a) (title b)) (favorites_res all q)"
      by (simp add: filtered_cases)
    then show "sorted_wrt (\<lambda>a b. lc (title a) (title b) \<le> 0) (filtered lc all q (Some ''title''))"
      using Array_sort_title [OF tot trans, of "favorites_res all q"] by (simp only:)
  qed
  have ex1: "map photo_id (filtered lc
        [\<lparr>photo_id = 3, albumId = 1, title = ''c'', url = ''u'', thumbnailUrl = ''t''\<rparr>,
         \<lparr>photo_id = 1, albumId = 1, title = ''a'', url = ''u'', thumbnailUrl = ''t''\<rparr>,
         \<lparr>photo_id = 2, albumId = 1, title = ''b'', url = ''u'', thumbnailUrl = ''t''\<rparr>]
        [] (Some ''idAsc'')) = [1, 2, 3]"
    by (simp add: filtered_cases favorites_res_def trim_def toLowerCase_def Array_sort_def)
  have ex2: "map photo_id (filtered lc
        [\<lparr>photo_id = 3, albumId = 1, title = ''c'', url = ''u'', thumbnailUrl = ''t''\<rparr>,
         \<lparr>photo_id = 1, albumId = 1, title = ''a'', url = ''u'', thumbnailUrl = ''t''\<rparr>,
         \<lparr>photo_id = 2, albumId = 1, title = ''b'', url = ''u'', thumbnailUrl = ''t''\<rparr>]
        [] (Some ''idDesc'')) = [3, 2, 1]"
    by (simp add: filtered_cases favorites_res_def trim_def toLowerCase_def Array_sort_def)
  show ?thesis
    using asc desc dflt other ttl mset_filtered [of lc all q sp] ex1 ex2
    by (intro conjI)
qed

theorem favorites_sort_witness:
  "sorted_wrt (\<lambda>a b. (if title a < title b then - 1 else if title a = title b then 0 else (1::int)) \<le> 0)
     (filtered (\<lambda>a b. if a < b then - 1 else if a = b then 0 else 1)
        [\<lparr>photo_id = 1, albumId = 1, title = ''Dog'', url = ''u'', thumbnailUrl = ''t''\<rparr>,
         \<lparr>photo_id = 2, albumId = 1, title = ''Cat'', url = ''u'', thumbnailUrl = ''t''\<rparr>]
        [] (Some ''title''))
   \<and> filtered (\<lambda>a b. if a < b then - 1 else if a = b then 0 else 1)
        [\<lparr>photo_id = 1, albumId = 1, title = ''Dog'', url = ''u'', thumbnailUrl = ''t''\<rparr>,
         \<lparr>photo_id = 2, albumId = 1, title = ''Cat'', url = ''u'', thumbnailUrl = ''t''\<rparr>]
        [] (Some ''newest'')
      = filtered (\<lambda>a b. if a < b then - 1 else if a = b then 0 else 1)
        [\<lparr>photo_id = 1, albumId = 1, title = ''Dog'', url = ''u'', thumbnailUrl = ''t''\<rparr>,
         \<lparr>photo_id = 2, albumId = 1, title = ''Cat'', url = ''u'', thumbnailUrl = ''t''\<rparr>]
        [] (Some ''idDesc'')"
proof -
  let ?lc = "\<lambda>a b :: string. if a < b then - 1 else if a = b then 0 else (1::int)"
  let ?all = "[\<lparr>photo_id = 1, albumId = 1, title = ''Dog'', url = ''u'', thumbnailUrl = ''t''\<rparr>,
         \<lparr>photo_id = 2, albumId = 1, title = ''Cat'', url = ''u'', thumbnailUrl = ''t''\<rparr>]"
  have h: "(\<forall>x y. ?lc x y \<le> 0 \<or> ?lc y x \<le> 0)
        \<and> (\<forall>x y z. ?lc x y \<le> 0 \<and> ?lc y z \<le> 0 \<longrightarrow> ?lc x z \<le> 0)"
    by (auto split: if_splits)
  have s: "Some ''newest'' \<noteq> Some ''title'' \<and> Some ''newest'' \<noteq> Some ''idAsc''"
    by simp
  note T = favorites_sort [where lc = ?lc and all = ?all and q = "[]" and sp = "Some ''newest''"]
  note T3 = T [THEN conjunct2, THEN conjunct2, THEN conjunct2]
  have a: "sorted_wrt (\<lambda>a b. ?lc (title a) (title b) \<le> 0) (filtered ?lc ?all [] (Some ''title''))"
    using T3 [THEN conjunct2, THEN conjunct1] h by (rule mp)
  have b: "filtered ?lc ?all [] (Some ''newest'') = filtered ?lc ?all [] (Some ''idDesc'')"
    using T3 [THEN conjunct1] s by (rule mp)
  show ?thesis using a b by (rule conjI)
qed

lemma set_Object_values: "set (Object_values s) = snd ` set s"
  by (auto simp: Object_values_def)

lemma mset_Object_values: "mset (Object_values s) = mset (map snd s)"
proof -
  let ?P = "\<lambda>kv :: int \<times> 'a. is_array_index (fst kv)"
  have "mset (Object_values s)
          = image_mset snd (filter_mset ?P (mset s)) + image_mset snd (filter_mset (\<lambda>kv. \<not> ?P kv) (mset s))"
    by (simp add: Object_values_def)
  also have "\<dots> = image_mset snd (filter_mset ?P (mset s) + filter_mset (\<lambda>kv. \<not> ?P kv) (mset s))"
    by (simp only: image_mset_union)
  also have "filter_mset ?P (mset s) + filter_mset (\<lambda>kv. \<not> ?P kv) (mset s) = mset s"
    by (rule multiset_partition [symmetric])
  finally show ?thesis by simp
qed

lemma favorites_res_subset: "set (favorites_res all q) \<subseteq> set all"
  by (auto simp: favorites_res_filter)

lemma set_export_payload: "set (export_payload lc S q sp) \<subseteq> snd ` set S"
  using favorites_res_subset [of "Object_values S" q]
  by (auto simp: export_payload_def Let_def set_filtered set_Object_values)

lemma favorites_res_Nil_iff:
  "favorites_res all q = [] \<longleftrightarrow>
     all = [] \<or> (toLowerCase (trim q) \<noteq> []
        \<and> (\<forall>p\<in>set all. \<not> str_includes (toLowerCase (title p)) (toLowerCase (trim q))))"
  by (auto simp: favorites_res_def Let_def filter_empty_conv)

text \<open>
  C10: the export writes the filtered and sorted photos when there is one, and the
  whole store (in the order of \<open>Object.values\<close>) when there is none, which is the case
  exactly when the store is empty or the trimmed query is not empty and no title
  contains it. So the store that holds the photo \<open>Cat\<close> and the query \<open>zebra\<close>, which
  matches nothing, export the photo \<open>Cat\<close> and not the empty array.
\<close>

theorem export_falls_back:
  "(filtered lc (Object_values S) q sp \<noteq> [] \<longrightarrow>
      export_payload lc S q sp = filtered lc (Object_values S) q sp)
   \<and> (filtered lc (Object_values S) q sp = [] \<longrightarrow> export_payload lc S q sp = Object_values S)
   \<and> (filtered lc (Object_values S) q sp = [] \<longleftrightarrow>
        Object_values S = [] \<or> (toLowerCase (trim q) \<noteq> []
          \<and> (\<forall>p\<in>set (Object_values S).
                \<not> str_includes (toLowerCase (title p)) (toLowerCase (trim q)))))
   \<and> exportJSON JSON_stringify lc S q sp
       = JSON_stringify (JArr (map json_of_Photo (export_payload lc S q sp)))
   \<and> filtered lc
        (Object_values [(1, \<lparr>photo_id = 1, albumId = 1, title = ''Cat'', url = ''u'', thumbnailUrl = ''t''\<rparr>)])
        ''zebra'' sp = []
   \<and> export_payload lc
        [(1, \<lparr>photo_id = 1, albumId = 1, title = ''Cat'', url = ''u'', thumbnailUrl = ''t''\<rparr>)]
        ''zebra'' sp
       = [\<lparr>photo_id = 1, albumId = 1, title = ''Cat'', url = ''u'', thumbnailUrl = ''t''\<rparr>]"
proof -
  let ?S = "[(1, \<lparr>photo_id = 1, albumId = 1, title = ''Cat'', url = ''u'', thumbnailUrl = ''t''\<rparr>)]"
  have a: "filtered lc (Object_values S) q sp \<noteq> [] \<longrightarrow>
      export_payload lc S q sp = filtered lc (Object_values S) q sp"
    by (simp add: export_payload_def Let_def)
  have b: "filtered lc (Object_values S) q sp = [] \<longrightarrow> export_payload lc S q sp = Object_values S"
    by (simp add: export_payload_def Let_def)
  have c: "filtered lc (Object_values S) q sp = [] \<longleftrightarrow>
        Object_values S = [] \<or> (toLowerCase (trim q) \<noteq> []
          \<and> (\<forall>p\<in>set (Object_values S).
                \<not> str_includes (toLowerCase (title p)) (toLowerCase (trim q))))"
    by (simp only: filtered_Nil_iff favorites_res_Nil_iff)
  have d: "exportJSON JSON_stringify lc S q sp
       = JSON_stringify (JArr (map json_of_Photo (export_payload lc S q sp)))"
    by (simp add: exportJSON_def)
  have v: "Object_values ?S = [\<lparr>photo_id = 1, albumId = 1, title = ''Cat'', url = ''u'', thumbnailUrl = ''t''\<rparr>]"
    by (simp add: Object_values_def is_array_index_def)
  have r: "favorites_res (Object_values ?S) ''zebra'' = []"
    unfolding v
    by (simp add: favorites_res_def string_eval)
  have e: "filtered lc (Object_values ?S) ''zebra'' sp = []"
    using r by (simp only: filtered_Nil_iff)
  have f: "export_payload lc ?S ''zebra'' sp
       = [\<lparr>photo_id = 1, albumId = 1, title = ''Cat'', url = ''u'', thumbnailUrl = ''t''\<rparr>]"
    using e v by (simp add: export_payload_def Let_def)
  show ?thesis using a b c d e f by (intro conjI)
qed

theorem export_falls_back_witness:
  "export_payload (\<lambda>a b. 0)
        [(1, \<lparr>photo_id = 1, albumId = 1, title = ''Cat'', url = ''u'', thumbnailUrl = ''t''\<rparr>)]
        ''zebra'' None
     = Object_values [(1, \<lparr>photo_id = 1, albumId = 1, title = ''Cat'', url = ''u'', thumbnailUrl = ''t''\<rparr>)]
   \<and> Object_values [(1, \<lparr>photo_id = 1, albumId = 1, title = ''Cat'', url = ''u'', thumbnailUrl = ''t''\<rparr>)]
       \<noteq> []"
proof -
  let ?S = "[(1, \<lparr>photo_id = 1, albumId = 1, title = ''Cat'', url = ''u'', thumbnailUrl = ''t''\<rparr>)]"
  note T = export_falls_back [where lc = "\<lambda>a b. 0" and S = ?S and q = "''zebra''" and sp = None]
  have e: "filtered (\<lambda>a b. 0) (Object_values ?S) ''zebra'' None = []"
    using T [THEN conjunct2, THEN conjunct2, THEN conjunct2, THEN conjunct2, THEN conjunct1] .
  have "export_payload (\<lambda>a b. 0) ?S ''zebra'' None = Object_values ?S"
    using T [THEN conjunct2, THEN conjunct1] e by (rule mp)
  moreover have "Object_values ?S \<noteq> []"
    by (simp add: Object_values_def is_array_index_def)
  ultimately show ?thesis by (rule conjI)
qed

lemma import_items_same:
  "list_all (\<lambda>item. case import_key item of None \<Rightarrow> True | Some n \<Rightarrow> map_of T n = Some item) arr
     \<Longrightarrow> import_items T arr = T"
  by (induction arr) (auto simp: update_triv split: option.splits)

lemma import_own_values:
  assumes wf: "wf_json_store T" and own: "set arr \<subseteq> snd ` set T"
  shows "import_items T arr = T"
proof (rule import_items_same, unfold list_all_iff, rule ballI)
  fix item assume "item \<in> set arr"
  with own obtain k where k: "(k, item) \<in> set T" by auto
  with wf have idp: "property item ''id'' = Some (JNum k)"
    by (auto simp: wf_json_store_def list_all_iff)
  from wf k have "map_of T k = Some item"
    by (simp add: wf_json_store_def)
  with idp show "case import_key item of None \<Rightarrow> True | Some n \<Rightarrow> map_of T n = Some item"
    using import_key_SomeD [of item] by (auto split: option.splits)
qed

lemma wf_json_store_store_json: "wf_store S \<Longrightarrow> wf_json_store (store_json S)"
  by (auto simp: wf_store_def wf_json_store_def store_json_def json_of_Photo_def list_all_iff
      comp_def case_prod_unfold)

lemma import_key_json_of_Photo:
  "import_key (json_of_Photo p) = None \<or> import_key (json_of_Photo p) = Some (photo_id p)"
  by (simp add: import_key_def json_of_Photo_def)

lemma map_of_store_json:
  assumes "wf_store S" and "p \<in> snd ` set S"
  shows "map_of (store_json S) (photo_id p) = Some (json_of_Photo p)"
proof -
  from assms obtain k where kp: "(k, p) \<in> set S" by auto
  with assms have k: "photo_id p = k"
    by (auto simp: wf_store_def list_all_iff)
  have "distinct (map fst (store_json S))"
    using assms(1) by (simp add: wf_store_def store_json_def comp_def case_prod_unfold)
  moreover have "(k, json_of_Photo p) \<in> set (store_json S)"
    using kp by (force simp: store_json_def)
  ultimately show ?thesis using k by simp
qed

lemma wf_store_Nil: "wf_store []"
  by (simp add: wf_store_def)

lemma set_delete_subset: "set (AList.delete k S) \<subseteq> set S"
  by (auto simp: AList.delete_eq)

lemma list_all_update:
  "list_all (\<lambda>kv. photo_id (snd kv) = fst kv) S \<Longrightarrow>
     list_all (\<lambda>kv. photo_id (snd kv) = fst kv) (AList.update (photo_id p) p S)"
  by (induction S) auto

lemma wf_store_delete: "wf_store S \<Longrightarrow> wf_store (AList.delete k S)"
  using set_delete_subset [of k S]
  by (auto simp: wf_store_def distinct_delete list_all_iff)

lemma wf_store_toggleFav: "wf_store S \<Longrightarrow> wf_store (toggleFav S p)"
  by (simp add: toggleFav_def wf_store_delete) (simp add: wf_store_def distinct_update list_all_update)

lemma wf_store_clearAll: "wf_store S \<Longrightarrow> wf_store (clearAll c S)"
  by (simp add: clearAll_def wf_store_Nil)

lemma wf_store_removeOne: "wf_store S \<Longrightarrow> wf_store (removeOne S p)"
  by (simp add: removeOne_def wf_store_delete)

text \<open>
  C2: for every well-formed store \<open>S\<close>, every query and every sort key, when
  \<open>JSON.parse\<close> gives back the array \<open>JSON.stringify\<close> was given, importing the
  exported file into \<open>S\<close> leaves \<open>S\<close> as it is, without an alert (whatever the
  \<open>finally\<close> block of the handler then does); and with an empty query the exported
  array holds the entire store.
\<close>

theorem export_import_roundtrip:
  "wf_store S
   \<and> JSON_parse (exportJSON JSON_stringify lc S q sp)
       = Some (JArr (map json_of_Photo (export_payload lc S q sp))) \<longrightarrow>
     fst (onImportFile JSON_parse ct (store_json S)
            (Some (exportJSON JSON_stringify lc S q sp)))
       = (store_json S, [])
     \<and> (trim q = [] \<longrightarrow> mset (export_payload lc S q sp) = mset (map snd S))"
proof (intro impI, elim conjE)
  assume wf: "wf_store S"
    and parse: "JSON_parse (exportJSON JSON_stringify lc S q sp)
       = Some (JArr (map json_of_Photo (export_payload lc S q sp)))"
  have "list_all (\<lambda>item. case import_key item of None \<Rightarrow> True
                | Some n \<Rightarrow> map_of (store_json S) n = Some item)
          (map json_of_Photo (export_payload lc S q sp))"
    unfolding list_all_iff
  proof
    fix item assume "item \<in> set (map json_of_Photo (export_payload lc S q sp))"
    then obtain p where p0: "p \<in> set (export_payload lc S q sp)"
      and item: "item = json_of_Photo p"
      by auto
    from p0 have p: "p \<in> snd ` set S"
      using set_export_payload [of lc S q sp] by blast
    show "case import_key item of None \<Rightarrow> True
            | Some n \<Rightarrow> map_of (store_json S) n = Some item"
      using import_key_json_of_Photo [of p] map_of_store_json [OF wf p]
      by (auto simp: item split: option.splits)
  qed
  then have same: "import_items (store_json S) (map json_of_Photo (export_payload lc S q sp))
                    = store_json S"
    by (rule import_items_same)
  have whole: "trim q = [] \<longrightarrow> mset (export_payload lc S q sp) = mset (map snd S)"
  proof
    assume "trim q = []"
    then have "favorites_res (Object_values S) q = Object_values S"
      by (simp add: favorites_res_def toLowerCase_def)
    then have "mset (export_payload lc S q sp) = mset (Object_values S)"
      using mset_filtered [of lc "Object_values S" q sp]
      by (simp add: export_payload_def Let_def)
    then show "mset (export_payload lc S q sp) = mset (map snd S)"
      by (simp only: mset_Object_values)
  qed
  show "fst (onImportFile JSON_parse ct (store_json S)
            (Some (exportJSON JSON_stringify lc S q sp)))
       = (store_json S, [])
     \<and> (trim q = [] \<longrightarrow> mset (export_payload lc S q sp) = mset (map snd S))"
    using parse same whole by (simp add: onImportFile_def)
qed

theorem export_import_roundtrip_witness:
  "fst (onImportFile
     (\<lambda>t. if t = ''F''
          then Some (JArr
            [json_of_Photo \<lparr>photo_id = 2, albumId = 1, title = ''Dog'', url = ''u'', thumbnailUrl = ''t''\<rparr>,
             json_of_Photo \<lparr>photo_id = 1, albumId = 1, title = ''Cat'', url = ''u'', thumbnailUrl = ''t''\<rparr>])
          else None)
     None
     (store_json
        [(2, \<lparr>photo_id = 2, albumId = 1, title = ''Dog'', url = ''u'', thumbnailUrl = ''t''\<rparr>),
         (1, \<lparr>photo_id = 1, albumId = 1, title = ''Cat'', url = ''u'', thumbnailUrl = ''t''\<rparr>)])
     (Some ''F''))
   = (store_json
        [(2, \<lparr>photo_id = 2, albumId = 1, title = ''Dog'', url = ''u'', thumbnailUrl = ''t''\<rparr>),
         (1, \<lparr>photo_id = 1, albumId = 1, title = ''Cat'', url = ''u'', thumbnailUrl = ''t''\<rparr>)], [])"
proof -
  let ?dog = "\<lparr>photo_id = 2, albumId = 1, title = ''Dog'', url = ''u'', thumbnailUrl = ''t''\<rparr>"
  let ?cat = "\<lparr>photo_id = 1, albumId = 1, title = ''Cat'', url = ''u'', thumbnailUrl = ''t''\<rparr>"
  let ?S = "[(2, ?dog), (1, ?cat)]"
  let ?parse = "\<lambda>t. if t = ''F'' then Some (JArr [json_of_Photo ?dog, json_of_Photo ?cat]) else None"
  let ?stringify = "\<lambda>v :: json. ''F''"
  have wf: "wf_store ?S"
    by (simp add: wf_store_def)
  have payload: "export_payload (\<lambda>a b. 0) ?S [] None = [?dog, ?cat]"
    by (simp add: export_payload_def Object_values_def is_array_index_def filtered_def
        favorites_res_def trim_def toLowerCase_def Array_sort_def)
  have exported: "exportJSON ?stringify (\<lambda>a b. 0) ?S [] None = ''F''"
    by (simp add: exportJSON_def)
  have parse: "?parse (exportJSON ?stringify (\<lambda>a b. 0) ?S [] None)
       = Some (JArr (map json_of_Photo (export_payload (\<lambda>a b. 0) ?S [] None)))"
    by (simp only: exported payload) simp
  have "fst (onImportFile ?parse None (store_json ?S)
               (Some (exportJSON ?stringify (\<lambda>a b. 0) ?S [] None)))
       = (store_json ?S, [])"
    using export_import_roundtrip [where JSON_parse = ?parse and JSON_stringify = ?stringify
        and lc = "\<lambda>a b. 0" and S = ?S and q = "[]" and sp = None and ct = None] wf parse
    by blast
  then show ?thesis by (simp only: exported)
qed

section \<open>Properties of the pagination controller\<close>

lemma fetches_settle: "fetches (settle n s) = fetches s"
proof (cases "n < length (requests s)")
  case True
  then show ?thesis
    by (auto simp: fetches_def settle_def list_eq_iff_nth_eq nth_list_update)
next
  case False
  then have "(requests s)[n := (requests s ! n)\<lparr>settled := True\<rparr>] = requests s"
    by (simp add: list_update_beyond)
  then show ?thesis by (simp add: fetches_def settle_def)
qed

lemma step_Retry: "step Retry s = s"
  by (simp add: setPage_def)

lemma step_Sentinel_inert: "\<not> hasMore s \<or> loading s \<or> error s \<noteq> None \<Longrightarrow> step Sentinel s = s"
  by auto

lemma step_keeps_end:
  assumes "\<not> hasMore s" and "e \<noteq> FiltersChanged"
  shows "\<not> hasMore (step e s) \<and> page (step e s) = page s \<and> fetches (step e s) = fetches s"
proof (cases e)
  case Sentinel
  with assms show ?thesis by simp
next
  case (Resolved n data)
  have "fetches ((settle n s)\<lparr>items := i, hasMore := h, loading := l, initialLoaded := il\<rparr>) = fetches s"
    for i h l il
    using fetches_settle [of n s] by (simp add: fetches_def)
  with Resolved assms show ?thesis
    using fetches_settle [of n s] by (simp add: settle_def)
next
  case (Rejected n)
  have "fetches ((settle n s)\<lparr>error := e', loading := l, initialLoaded := il\<rparr>) = fetches s"
    for e' l il
    using fetches_settle [of n s] by (simp add: fetches_def)
  with Rejected assms show ?thesis
    using fetches_settle [of n s] by (simp add: settle_def)
next
  case FiltersChanged
  with assms show ?thesis by simp
next
  case Retry
  with assms show ?thesis by (simp add: setPage_def)
qed

lemma run_keeps_end:
  "\<not> hasMore s \<Longrightarrow> FiltersChanged \<notin> set evs \<Longrightarrow>
     \<not> hasMore (run evs s) \<and> page (run evs s) = page s \<and> fetches (run evs s) = fetches s"
proof (induction evs arbitrary: s)
  case Nil
  then show ?case by (simp add: run_def)
next
  case (Cons e evs)
  from Cons.prems have e: "e \<noteq> FiltersChanged" and evs: "FiltersChanged \<notin> set evs"
    by auto
  note st = step_keeps_end [OF Cons.prems(1) e]
  from st have "\<not> hasMore (step e s)" by simp
  from Cons.IH [OF this evs] st show ?case
    by (simp add: run_def)
qed

lemma filters_change_restarts:
  "hasMore (step FiltersChanged s) \<and> page (step FiltersChanged s) = 1
   \<and> items (step FiltersChanged s) = [] \<and> error (step FiltersChanged s) = None"
  by (simp add: reset_effect_def page_effect_def Let_def)

lemma short_page_ends:
  "pending n s \<Longrightarrow> alive (requests s ! n) \<Longrightarrow> length data < 24 \<Longrightarrow>
     \<not> hasMore (step (Resolved n data) s)"
  by (simp add: settle_def)

lemma length_remote_page: "length (remote_page first n) = n"
  by (simp add: remote_page_def)

lemmas gallery_eval =
  run_def mount_def page_effect_def reset_effect_def cleanup_def pending_def settle_def
  setPage_def fetches_def length_remote_page

lemma after_pages_24_24_10:
  "\<not> hasMore (run pages_24_24_10 mount)"
  "page (run pages_24_24_10 mount) = 3"
  "length (items (run pages_24_24_10 mount)) = 58"
  "fetches (run pages_24_24_10 mount) = [(Appender, 1), (Reset, 1), (Appender, 2), (Appender, 3)]"
  by (simp_all add: pages_24_24_10_def gallery_eval)

lemma error_suppresses: "error s \<noteq> None \<Longrightarrow> step Sentinel s = s"
  by auto

text \<open>
  C7, as stated, fails: after the pages of 24, 24 and 10 photos \<open>hasMore\<close> is false, but
  when the query or the album then changes, the reset sets \<open>hasMore\<close> again and fetches
  page 1, and once that page of 24 photos is there the next call of the sentinel's
  callback advances the page to 2 and issues a fetch.
\<close>

theorem pagination_restarts_counterexample:
  "\<not> hasMore (run pages_24_24_10 mount)
   \<and> page (run (pages_24_24_10 @ [FiltersChanged, Resolved 4 (remote_page 1 24)]) mount) = 1
   \<and> page (run (pages_24_24_10 @ [FiltersChanged, Resolved 4 (remote_page 1 24), Sentinel]) mount) = 2
   \<and> fetches (run (pages_24_24_10 @ [FiltersChanged, Resolved 4 (remote_page 1 24), Sentinel]) mount)
       = [(Appender, 1), (Reset, 1), (Appender, 2), (Appender, 3),
          (Reset, 1), (Appender, 1), (Appender, 2)]"
  by (simp add: pages_24_24_10_def gallery_eval)

text \<open>
  C7 (amended): when a request that has not been superseded resolves with fewer than
  24 photos, \<open>hasMore\<close> becomes false; while \<open>hasMore\<close> is false the sentinel's callback
  changes nothing; and from then on, until the query or the album changes, whatever
  happens (calls of the sentinel's callback, requests that resolve or fail, \<open>Retry\<close>),
  \<open>hasMore\<close> stays false, the page stays the same and no fetch is issued. A change of
  the filters starts the pagination again: \<open>hasMore\<close> is true and the page is 1. After
  the pages of 24, 24 and 10 photos \<open>hasMore\<close> is false, the page is 3, the 58 photos are
  there, and the sentinel is inert.
\<close>

theorem pagination_ends:
  "(pending n s \<and> alive (requests s ! n) \<and> length data < 24 \<longrightarrow>
      \<not> hasMore (step (Resolved n data) s))
   \<and> (\<not> hasMore s \<longrightarrow> step Sentinel s = s)
   \<and> (\<not> hasMore s \<and> FiltersChanged \<notin> set evs \<longrightarrow>
        \<not> hasMore (run evs s) \<and> page (run evs s) = page s \<and> fetches (run evs s) = fetches s)
   \<and> hasMore (step FiltersChanged s) \<and> page (step FiltersChanged s) = 1
   \<and> \<not> hasMore (run pages_24_24_10 mount)
   \<and> page (run pages_24_24_10 mount) = 3
   \<and> length (items (run pages_24_24_10 mount)) = 58
   \<and> fetches (run pages_24_24_10 mount) = [(Appender, 1), (Reset, 1), (Appender, 2), (Appender, 3)]
   \<and> step Sentinel (run pages_24_24_10 mount) = run pages_24_24_10 mount"
proof -
  have a: "pending n s \<and> alive (requests s ! n) \<and> length data < 24 \<longrightarrow>
      \<not> hasMore (step (Resolved n data) s)"
    using short_page_ends [of n s data] by blast
  have b: "\<not> hasMore s \<longrightarrow> step Sentinel s = s"
    using step_Sentinel_inert [of s] by blast
  have c: "\<not> hasMore s \<and> FiltersChanged \<notin> set evs \<longrightarrow>
        \<not> hasMore (run evs s) \<and> page (run evs s) = page s \<and> fetches (run evs s) = fetches s"
    using run_keeps_end [of s evs] by blast
  have r: "hasMore (step FiltersChanged s)" "page (step FiltersChanged s) = 1"
    using filters_change_restarts [of s] by blast+
  have d: "step Sentinel (run pages_24_24_10 mount) = run pages_24_24_10 mount"
    using after_pages_24_24_10(1) by (rule step_Sentinel_inert [OF disjI1])
  show ?thesis
    using a b c r after_pages_24_24_10 d by (intro conjI)
qed

theorem pagination_ends_witness:
  "page (run [Sentinel, Retry, Rejected 0, Sentinel] (run pages_24_24_10 mount)) = 3
   \<and> fetches (run [Sentinel, Retry, Rejected 0, Sentinel] (run pages_24_24_10 mount))
       = [(Appender, 1), (Reset, 1), (Appender, 2), (Appender, 3)]
   \<and> \<not> hasMore (step (Resolved 0 (remote_page 1 10)) mount)"
proof -
  let ?s = "run pages_24_24_10 mount"
  let ?evs = "[Sentinel, Retry, Rejected 0, Sentinel]"
  have h: "\<not> hasMore ?s \<and> FiltersChanged \<notin> set ?evs"
    using after_pages_24_24_10(1) by simp
  have g: "pending 0 mount \<and> alive (requests mount ! 0) \<and> length (remote_page 1 10) < 24"
    by (simp add: gallery_eval)
  note T = pagination_ends [where s = ?s and evs = ?evs]
  have "\<not> hasMore (run ?evs ?s) \<and> page (run ?evs ?s) = page ?s \<and> fetches (run ?evs ?s) = fetches ?s"
    using T [THEN conjunct2, THEN conjunct2, THEN conjunct1] h by (rule mp)
  moreover have "\<not> hasMore (step (Resolved 0 (remote_page 1 10)) mount)"
    using pagination_ends [where s = mount and n = 0 and data = "remote_page 1 10", THEN conjunct1] g
    by (rule mp)
  ultimately show ?thesis
    using after_pages_24_24_10 by simp
qed

text \<open>
  C8: \<open>Retry\<close> leaves every state as it is (the page does not change, so the page
  appender does not run again). On the run where both requests made at the mount
  fail, the error is set and the sentinel is suppressed, as the claim says; but after
  \<open>Retry\<close> the error is still set, the sentinel is still suppressed and no fetch has
  been issued.
\<close>

theorem retry_does_not_resume:
  "step Retry s = s
   \<and> error (run [Rejected 0, Rejected 1] mount) = Some ''Could not load photos''
   \<and> step Sentinel (run [Rejected 0, Rejected 1] mount) = run [Rejected 0, Rejected 1] mount
   \<and> step Retry (run [Rejected 0, Rejected 1] mount) = run [Rejected 0, Rejected 1] mount
   \<and> run [Retry, Sentinel] (run [Rejected 0, Rejected 1] mount) = run [Rejected 0, Rejected 1] mount
   \<and> loading (run [Rejected 0, Rejected 1] mount) = False
   \<and> fetches (run [Rejected 0, Rejected 1, Retry, Sentinel] mount) = [(Appender, 1), (Reset, 1)]"
proof -
  let ?s = "run [Rejected 0, Rejected 1] mount"
  have e: "error ?s = Some ''Could not load photos''"
    by (simp add: gallery_eval could_not_load_def)
  have l: "loading ?s = False"
    by (simp add: gallery_eval)
  have f: "fetches ?s = [(Appender, 1), (Reset, 1)]"
    by (simp add: gallery_eval)
  have s: "step Sentinel ?s = ?s"
    using e by (intro error_suppresses) simp
  have r: "step Retry ?s = ?s"
    by (rule step_Retry)
  have rs: "run [Retry, Sentinel] ?s = ?s"
    using s r by (simp add: run_def)
  have "run [Rejected 0, Rejected 1, Retry, Sentinel] mount = run [Retry, Sentinel] ?s"
    by (simp add: run_def)
  with rs f have f': "fetches (run [Rejected 0, Rejected 1, Retry, Sentinel] mount) = [(Appender, 1), (Reset, 1)]"
    by simp
  show ?thesis using step_Retry [of s] e s r rs l f' by (intro conjI)
qed

section \<open>Properties of the detail page\<close>

text \<open>
  C9: for every route parameter that \<open>Number\<close> turns into \<open>NaN\<close> (a non-numeric one)
  or into a number that is zero or negative (or into \<open>Infinity\<close>), the effect sets the
  error \<open>Invalid photo id\<close> and returns before it fetches anything or touches the
  photo; for every parameter that \<open>Number\<close> turns into a finite positive number, it
  clears the error and calls \<open>fetchPhoto\<close> with that number.
\<close>

theorem invalid_id_short_circuits:
  "((Number p = NaN \<or> le_zero (Number p) \<or> Number p = PosInfinity) \<longrightarrow>
      err (PhotoDetail_load Number p s) = Some ''Invalid photo id''
      \<and> fetched (PhotoDetail_load Number p s) = fetched s
      \<and> photo (PhotoDetail_load Number p s) = photo s)
   \<and> (le_zero (Number p) \<longleftrightarrow> Number p = NegInfinity \<or> (\<exists>r. Number p = Finite r \<and> r \<le> 0))
   \<and> (\<forall>r. Number p = Finite r \<and> 0 < r \<longrightarrow>
        fetched (PhotoDetail_load Number p s) = fetched s @ [Finite r]
        \<and> err (PhotoDetail_load Number p s) = None)"
  by (cases "Number p") (auto simp: PhotoDetail_load_def load_photo_def)

theorem invalid_id_short_circuits_witness:
  "fetched (PhotoDetail_load (\<lambda>p. if p = Some ''42'' then Finite 42 else if p = Some ''-1'' then Finite (- 1) else NaN)
      (Some ''abc'') \<lparr>photo = None, err = None, loaded = False, fetched = []\<rparr>) = []
   \<and> err (PhotoDetail_load (\<lambda>p. if p = Some ''42'' then Finite 42 else if p = Some ''-1'' then Finite (- 1) else NaN)
      (Some ''-1'') \<lparr>photo = None, err = None, loaded = False, fetched = []\<rparr>) = Some ''Invalid photo id''
   \<and> fetched (PhotoDetail_load (\<lambda>p. if p = Some ''42'' then Finite 42 else if p = Some ''-1'' then Finite (- 1) else NaN)
      (Some ''42'') \<lparr>photo = None, err = None, loaded = False, fetched = []\<rparr>) = [Finite 42]"
proof -
  let ?N = "\<lambda>p. if p = Some ''42'' then Finite 42 else if p = Some ''-1'' then Finite (- 1) else NaN"
  let ?s = "\<lparr>photo = None, err = None, loaded = False, fetched = []\<rparr>"
  have a: "?N (Some ''abc'') = NaN \<or> le_zero (?N (Some ''abc'')) \<or> ?N (Some ''abc'') = PosInfinity"
    by simp
  have b: "?N (Some ''-1'') = NaN \<or> le_zero (?N (Some ''-1'')) \<or> ?N (Some ''-1'') = PosInfinity"
    by simp
  have c: "?N (Some ''42'') = Finite 42 \<and> (0::real) < 42" by simp
  have "fetched (PhotoDetail_load ?N (Some ''abc'') ?s) = fetched ?s"
    using invalid_id_short_circuits [where Number = ?N and p = "Some ''abc''" and s = ?s,
        THEN conjunct1, rule_format, OF a] by blast
  moreover have "err (PhotoDetail_load ?N (Some ''-1'') ?s) = Some ''Invalid photo id''"
    using invalid_id_short_circuits [where Number = ?N and p = "Some ''-1''" and s = ?s,
        THEN conjunct1, rule_format, OF b] by blast
  moreover have "fetched (PhotoDetail_load ?N (Some ''42'') ?s) = fetched ?s @ [Finite 42]"
    using invalid_id_short_circuits [where Number = ?N and p = "Some ''42''" and s = ?s,
        THEN conjunct2, THEN conjunct2, rule_format, OF c] by blast
  ultimately show ?thesis by simp
qed

end

